theory Spec2Isabelle
  imports
    Complex_Main
    "HOL-Library.Multiset"
    "HOL-Library.List_Lexorder"
    "HOL-Library.Char_ord"
    "HOL-Library.Product_Lexorder"
begin

section \<open>Data model\<close>

text \<open>
  The anomaly detectors of \<^verbatim>\<open>apps/anomalist/detectors.py\<close> work on pandas data frames
  whose first two columns are \<^verbatim>\<open>entity_name\<close> and \<^verbatim>\<open>year\<close> (\<^verbatim>\<open>INDEX_COLUMNS\<close>) and whose
  other columns are labelled by integer variable ids and hold nullable floats.

  \<^item> A float cell is a \<open>real option\<close>: \<open>None\<close> is pandas' null (NaN), \<open>Some x\<close> a number.
    Rounding and infinities are not part of the model.
  \<^item> A frame is stored column by column, as pandas does. The row index is the default
    positional one (\<open>0 ..< n\<close>): every detector builds its score frame with
    \<^verbatim>\<open>pd.DataFrame(np.zeros_like(df), columns=df.columns)\<close>, which has that index, and
    then assigns columns of \<^verbatim>\<open>df\<close> to it by index alignment.
  \<^item> Entity names are strings ordered as Python orders them (by character code), years
    are integers, and neither is null.
\<close>

type_synonym cell = "real option"

record dataframe =
  entity_name :: "string list"
  year :: "int list"
  columns :: "(int \<times> cell list) list"

datatype error = KeyError "int list" | AssertionError string | ValueError string

definition nrows :: "dataframe \<Rightarrow> nat" where
  "nrows df = length (entity_name df)"

definition labels :: "dataframe \<Rightarrow> int list" where
  "labels df = map fst (columns df)"

text \<open>A well-formed frame: all columns have one length, and no label occurs twice.\<close>

definition wf_df :: "dataframe \<Rightarrow> bool" where
  "wf_df df \<longleftrightarrow>
     length (year df) = nrows df \<and>
     list_all (\<lambda>lc. length (snd lc) = nrows df) (columns df) \<and>
     distinct (labels df)"

text \<open>\<^verbatim>\<open>df[variable_id]\<close>: the column, or \<^verbatim>\<open>KeyError\<close>.\<close>

definition get_column :: "dataframe \<Rightarrow> int \<Rightarrow> error + cell list" where
  "get_column df v =
     (case map_of (columns df) v of None \<Rightarrow> Inl (KeyError [v]) | Some c \<Rightarrow> Inr c)"

text \<open>
  \<^verbatim>\<open>df[v] = series\<close>: replaces the column labelled \<open>v\<close>, or appends it when the frame
  has no such label.
\<close>

definition set_column :: "dataframe \<Rightarrow> int \<Rightarrow> cell list \<Rightarrow> dataframe" where
  "set_column df v c =
     (if v \<in> set (labels df)
      then df\<lparr>columns := map (\<lambda>(l, old). if l = v then (l, c) else (l, old)) (columns df)\<rparr>
      else df\<lparr>columns := columns df @ [(v, c)]\<rparr>)"

text \<open>Writing the scalar \<open>x\<close> into the cells of one column selected by a row mask.\<close>

definition mask_set :: "bool list \<Rightarrow> real \<Rightarrow> cell list \<Rightarrow> cell list" where
  "mask_set sel x c = map (\<lambda>(m, old). if m then Some x else old) (zip sel c)"


text \<open>\<^verbatim>\<open>df.loc[rows, variable_ids] = x\<close> for labels that are all columns of the frame.\<close>

definition loc_set_columns :: "dataframe \<Rightarrow> bool list \<Rightarrow> int list \<Rightarrow> real \<Rightarrow> dataframe" where
  "loc_set_columns df sel vs x =
     df\<lparr>columns :=
       map (\<lambda>(l, c). if l \<in> set vs then (l, mask_set sel x c) else (l, c)) (columns df)\<rparr>"

section \<open>Series operations\<close>

fun dropna :: "cell list \<Rightarrow> real list" where
  "dropna [] = []"
| "dropna (None # cs) = dropna cs"
| "dropna (Some x # cs) = x # dropna cs"

definition fillna :: "real \<Rightarrow> cell list \<Rightarrow> cell list" where
  "fillna v cs = map (\<lambda>c. case c of None \<Rightarrow> Some v | Some x \<Rightarrow> Some x) cs"

text \<open>\<^verbatim>\<open>series.shift()\<close>: every value moves one row down, the first row becomes null.\<close>

definition shift :: "'a option list \<Rightarrow> 'a option list" where
  "shift cs = take (length cs) (None # cs)"

text \<open>
  \<^verbatim>\<open>series.quantile(q)\<close> with pandas' default linear interpolation: on the sorted
  values, position \<open>(n - 1) * q\<close> is interpolated between its two neighbours. The
  quantile of an empty series is null.
\<close>

definition quantile :: "real list \<Rightarrow> real \<Rightarrow> cell" where
  "quantile xs q =
     (if xs = [] then None
      else let s = sort xs;
               h = real (length s - 1) * q;
               lo = nat \<lfloor>h\<rfloor>;
               hi = min (lo + 1) (length s - 1)
           in Some (s ! lo + (h - real lo) * (s ! hi - s ! lo)))"

section \<open>The epsilon estimator\<close>

definition estimate_bard_epsilon :: "cell list \<Rightarrow> cell" where
  "estimate_bard_epsilon series =
     (let positive_values = map abs (dropna series);
          positive_values = filter (\<lambda>x. x > 0) positive_values
      in case (quantile positive_values (95 / 100), quantile positive_values (5 / 100)) of
           (Some q95, Some q05) \<Rightarrow> Some ((q95 - q05) / 10)
         | _ \<Rightarrow> None)"

section \<open>The BARD distance\<close>

text \<open>
  \<^verbatim>\<open>bard\<close> is imported from \<^verbatim>\<open>etl.data_helpers.misc\<close>, which is not among the sources.
  The detectors below take it as a parameter: a function of two cells and the scale
  \<open>eps\<close>, applied row by row to two aligned series.
\<close>

type_synonym bard_fn = "cell \<Rightarrow> cell \<Rightarrow> cell \<Rightarrow> cell"

definition bard_series :: "bard_fn \<Rightarrow> cell list \<Rightarrow> cell list \<Rightarrow> cell \<Rightarrow> cell list" where
  "bard_series bard a b eps = map (\<lambda>(x, y). bard x y eps) (zip a b)"

text \<open>
  Modelled from the spec: the body of \<^verbatim>\<open>bard\<close> is missing. The specification (4.2, 9)
  asks for a saturating function of \<open>|a - b| / eps\<close> and names \<open>|d| / (|d| + eps)\<close> as
  one; the result is null when either input is null. The division is the one of
  floats, where \<open>0 / 0\<close> is NaN, that is null. This instance is used for concrete
  examples only.
\<close>

definition bard_ratio :: bard_fn where
  "bard_ratio a b eps =
     (case (a, b, eps) of
        (Some x, Some y, Some e) \<Rightarrow>
          (if \<bar>x - y\<bar> + e = 0 then None else Some (\<bar>x - y\<bar> / (\<bar>x - y\<bar> + e)))
      | _ \<Rightarrow> None)"

text \<open>The property of 4.2 (d) that the detectors rely on: a null input gives a null result.\<close>

definition propagates_null :: "bard_fn \<Rightarrow> bool" where
  "propagates_null bard \<longleftrightarrow> (\<forall>a b eps. a = None \<or> b = None \<longrightarrow> bard a b eps = None)"

section \<open>The detectors\<close>

text \<open>
  \<^verbatim>\<open>pd.DataFrame(np.zeros_like(df), columns=df.columns)[INDEX_COLUMNS + variable_ids]\<close>
  followed by the copy of the index columns: a frame of zeros with the columns
  \<open>variable_ids\<close>. Selecting a label that is no column of \<open>df\<close> raises \<^verbatim>\<open>KeyError\<close>.
\<close>

definition zeros_like_select :: "dataframe \<Rightarrow> int list \<Rightarrow> error + dataframe" where
  "zeros_like_select df variable_ids =
     (let missing = filter (\<lambda>v. v \<notin> set (labels df)) variable_ids
      in if missing \<noteq> [] then Inl (KeyError missing)
         else Inr \<lparr>entity_name = entity_name df, year = year df,
                   columns = map (\<lambda>v. (v, replicate (nrows df) (Some 0))) variable_ids\<rparr>)"

subsection \<open>AnomalyUpgradeMissing\<close>

text \<open>The rows where the old column is not null and the new column is null.\<close>

definition affected_rows :: "cell list \<Rightarrow> cell list \<Rightarrow> bool list" where
  "affected_rows old new = map (\<lambda>(x, y). x \<noteq> None \<and> y = None) (zip old new)"



subsection \<open>AnomalyUpgradeChange\<close>



subsection \<open>AnomalyTimeChange\<close>

definition sortedness_error :: string where
  "sortedness_error = ''The function that detects abrupt time changes assumes the data is sorted by entity_name and year. But this is not the case. Either ensure the data is sorted, or fix the function.''"

text \<open>
  \<^verbatim>\<open>(df.sort_values(by=INDEX_COLUMNS).index == df.index).all()\<close>: the row positions are
  sorted by their (entity_name, year) key with a stable sort, as pandas sorts by
  several columns, and the sorted positions are compared with the original ones.
\<close>

definition sort_values_index :: "dataframe \<Rightarrow> nat list" where
  "sort_values_index df =
     map fst (sort_key snd (zip [0 ..< nrows df] (zip (entity_name df) (year df))))"

definition index_is_sorted :: "dataframe \<Rightarrow> bool" where
  "index_is_sorted df \<longleftrightarrow> sort_values_index df = [0 ..< nrows df]"

fun time_change_loop ::
  "bard_fn \<Rightarrow> dataframe \<Rightarrow> int list \<Rightarrow> dataframe \<Rightarrow> error + dataframe" where
  "time_change_loop bard df [] df_time_change = Inr df_time_change"
| "time_change_loop bard df (variable_id # rest) df_time_change =
     (case get_column df variable_id of
        Inl e \<Rightarrow> Inl e
      | Inr series \<Rightarrow>
          (let eps = estimate_bard_epsilon series;
               bard' = fillna 0 (bard_series bard series (shift series) eps)
           in time_change_loop bard df rest (set_column df_time_change variable_id bard')))"

text \<open>
  \<^verbatim>\<open>df["entity_name"] != df["entity_name"].shift()\<close>: true on the first row (the
  shifted value is null there) and on every row whose entity differs from the row before.
\<close>

definition entity_changes :: "string list \<Rightarrow> bool list" where
  "entity_changes names = map (\<lambda>(a, b). Some a \<noteq> b) (zip names (shift (map Some names)))"

definition AnomalyTimeChange_get_score_df ::
  "bard_fn \<Rightarrow> dataframe \<Rightarrow> int list \<Rightarrow> (int \<times> int) list \<Rightarrow> error + dataframe" where
  "AnomalyTimeChange_get_score_df bard df variable_ids variable_mapping =
     (case zeros_like_select df variable_ids of
        Inl e \<Rightarrow> Inl e
      | Inr df_time_change \<Rightarrow>
          if \<not> index_is_sorted df then Inl (AssertionError sortedness_error)
          else (case time_change_loop bard df variable_ids df_time_change of
                  Inl e \<Rightarrow> Inl e
                | Inr df_time_change' \<Rightarrow>
                    Inr (loc_set_columns df_time_change'
                           (entity_changes (entity_name df_time_change')) variable_ids 0)))"

section \<open>The score reducer\<close>

text \<open>
  A row of the long format: \<^verbatim>\<open>entity_name\<close>, \<^verbatim>\<open>year\<close>, \<^verbatim>\<open>variable_id\<close> and
  \<^verbatim>\<open>anomaly_score\<close>. The score is a cell after \<^verbatim>\<open>melt\<close> and a number after
  \<^verbatim>\<open>fillna(0)\<close>.
\<close>

record 's long_row =
  row_entity_name :: string
  row_year :: int
  variable_id :: int
  anomaly_score :: 's

text \<open>
  \<^verbatim>\<open>melt(id_vars=["entity_name", "year"], ...)\<close>: column after column, one long row
  for every row of the frame.
\<close>

definition melt :: "dataframe \<Rightarrow> cell long_row list" where
  "melt df_score =
     concat (map (\<lambda>(v, c).
       map (\<lambda>(e, y, s). \<lparr>row_entity_name = e, row_year = y, variable_id = v, anomaly_score = s\<rparr>)
         (zip (entity_name df_score) (zip (year df_score) c)))
       (columns df_score))"

definition fillna_score :: "real \<Rightarrow> cell long_row \<Rightarrow> real long_row" where
  "fillna_score v r =
     \<lparr>row_entity_name = row_entity_name r, row_year = row_year r, variable_id = variable_id r,
      anomaly_score = (case anomaly_score r of None \<Rightarrow> v | Some x \<Rightarrow> x)\<rparr>"

text \<open>The key of \<^verbatim>\<open>drop_duplicates(subset=["variable_id", "entity_name"])\<close>.\<close>

definition subset_key :: "'s long_row \<Rightarrow> int \<times> string" where
  "subset_key r = (variable_id r, row_entity_name r)"

text \<open>\<^verbatim>\<open>drop_duplicates(keep="first")\<close>: a row stays unless its key was seen before.\<close>

fun drop_duplicates_from :: "(int \<times> string) list \<Rightarrow> 's long_row list \<Rightarrow> 's long_row list" where
  "drop_duplicates_from seen [] = []"
| "drop_duplicates_from seen (r # rs) =
     (if subset_key r \<in> set seen then drop_duplicates_from seen rs
      else r # drop_duplicates_from (subset_key r # seen) rs)"

definition drop_duplicates :: "'s long_row list \<Rightarrow> 's long_row list" where
  "drop_duplicates rs = drop_duplicates_from [] rs"

text \<open>
  \<^verbatim>\<open>sort_values("anomaly_score", ascending=False)\<close> uses pandas' default sort kind,
  which leaves the order of equal scores open. The reducer therefore takes the sort as
  a parameter; what pandas guarantees is that its result is a rearrangement of the rows
  with the scores descending.
\<close>

type_synonym sort_fn = "real long_row list \<Rightarrow> real long_row list"

definition sorts_descending :: "sort_fn \<Rightarrow> real long_row list \<Rightarrow> bool" where
  "sorts_descending sort_values rs \<longleftrightarrow>
     mset (sort_values rs) = mset rs \<and>
     sorted_wrt (\<lambda>a b. anomaly_score a \<ge> anomaly_score b) (sort_values rs)"

text \<open>
  One such sort: pandas reverses the rows, sorts ascending and reverses again; with a
  stable ascending sort, rows of equal score keep their order.
\<close>

definition sort_values_stable :: sort_fn where
  "sort_values_stable rs = rev (sort_key anomaly_score (rev rs))"

definition get_long_format_score_df :: "sort_fn \<Rightarrow> dataframe \<Rightarrow> real long_row list" where
  "get_long_format_score_df sort_values df_score =
     (let df_score_long = map (fillna_score 0) (melt df_score)
      in drop_duplicates (sort_values df_score_long))"

section \<open>Example frames\<close>

text \<open>
  A score table with one entity and five time points: indicator 1 scores
  0, 0.2, 0.9, 0.1, 0 and indicator 2 scores zero or nothing at every time point.
\<close>

definition ex_scores :: dataframe where
  "ex_scores = \<lparr>entity_name = [''A'', ''A'', ''A'', ''A'', ''A''], year = [1, 2, 3, 4, 5],
     columns = [(1, [Some 0, Some (2/10), Some (9/10), Some (1/10), Some 0]),
                (2, [Some 0, None, Some 0, None, Some 0])]\<rparr>"

text \<open>A series with nulls, a zero and a negative value.\<close>

definition ex_series :: "cell list" where
  "ex_series = [Some 10, None, Some (- 10), Some 0, Some 10, Some 1000, Some 7]"


definition ex_time_null :: dataframe where
  "ex_time_null = \<lparr>entity_name = [''A'', ''A'', ''A'', ''A'', ''B''], year = [1, 2, 3, 4, 1],
     columns = [(1, [Some 10, None, Some 12, Some 1000, Some 7])]\<rparr>"







section \<open>Properties of the score reducer\<close>

lemma drop_duplicates_from_subset: "set (drop_duplicates_from seen rs) \<subseteq> set rs"
  by (induction rs arbitrary: seen) auto

lemma drop_duplicates_from_unseen:
  "r \<in> set (drop_duplicates_from seen rs) \<Longrightarrow> subset_key r \<notin> set seen"
proof (induction rs arbitrary: seen)
  case Nil
  then show ?case by simp
next
  case (Cons r0 rs)
  show ?case
  proof (cases "subset_key r0 \<in> set seen")
    case True
    with Cons.prems show ?thesis using Cons.IH [of seen] by simp
  next
    case False
    with Cons.prems consider "r = r0" | "r \<in> set (drop_duplicates_from (subset_key r0 # seen) rs)"
      by auto
    then show ?thesis
    proof cases
      case 1
      with False show ?thesis by simp
    next
      case 2
      then show ?thesis using Cons.IH [of "subset_key r0 # seen"] by simp
    qed
  qed
qed

lemma drop_duplicates_from_distinct: "distinct (map subset_key (drop_duplicates_from seen rs))"
proof (induction rs arbitrary: seen)
  case Nil
  show ?case by simp
next
  case (Cons r rs)
  show ?case
  proof (cases "subset_key r \<in> set seen")
    case True
    then show ?thesis using Cons.IH by simp
  next
    case False
    have "subset_key r \<notin> subset_key ` set (drop_duplicates_from (subset_key r # seen) rs)"
      by (auto dest: drop_duplicates_from_unseen)
    then show ?thesis using False Cons.IH by simp
  qed
qed

lemma drop_duplicates_from_keys:
  "subset_key ` set (drop_duplicates_from seen rs) = subset_key ` set rs - set seen"
  by (induction rs arbitrary: seen) auto

lemma drop_duplicates_from_first:
  "r \<in> set (drop_duplicates_from seen rs) \<Longrightarrow>
   find (\<lambda>r'. subset_key r' = subset_key r) rs = Some r"
proof (induction rs arbitrary: seen)
  case Nil
  then show ?case by simp
next
  case (Cons r0 rs)
  show ?case
  proof (cases "subset_key r0 \<in> set seen")
    case True
    with Cons.prems have in_rest: "r \<in> set (drop_duplicates_from seen rs)" by simp
    then have "subset_key r \<notin> set seen" by (rule drop_duplicates_from_unseen)
    with True have "subset_key r0 \<noteq> subset_key r" by auto
    then show ?thesis using Cons.IH [OF in_rest] by simp
  next
    case False
    with Cons.prems consider "r = r0" | "r \<in> set (drop_duplicates_from (subset_key r0 # seen) rs)"
      by auto
    then show ?thesis
    proof cases
      case 1
      then show ?thesis by simp
    next
      case 2
      then have "subset_key r \<notin> set (subset_key r0 # seen)" by (rule drop_duplicates_from_unseen)
      then have "subset_key r0 \<noteq> subset_key r" by auto
      then show ?thesis using Cons.IH [OF 2] by simp
    qed
  qed
qed

lemma find_sorted_wrt_first:
  "sorted_wrt R ys \<Longrightarrow> find P ys = Some r \<Longrightarrow> r' \<in> set ys \<Longrightarrow> P r' \<Longrightarrow> r' = r \<or> R r r'"
  by (induction ys) (auto split: if_splits)

lemma distinct_map_filter_single:
  "distinct (map f xs) \<Longrightarrow> x \<in> set xs \<Longrightarrow> filter (\<lambda>y. f y = f x) xs = [x]"
proof (induction xs)
  case Nil
  then show ?case by simp
next
  case (Cons a xs)
  show ?case
  proof (cases "x = a")
    case True
    have "\<forall>y \<in> set xs. f y \<noteq> f a"
      using Cons.prems(1) by (auto simp: image_iff)
    then have "filter (\<lambda>y. f y = f a) xs = []"
      by (simp add: filter_empty_conv)
    with True show ?thesis by simp
  next
    case False
    with Cons.prems have "x \<in> set xs" "f a \<noteq> f x" by auto
    then show ?thesis using Cons.IH Cons.prems(1) by simp
  qed
qed

lemma sort_values_stable_sorts: "sorts_descending sort_values_stable rs"
proof -
  have "sorted (map anomaly_score (sort_key anomaly_score (rev rs)))"
    by (rule sorted_sort_key)
  then have "sorted_wrt (\<lambda>a b. anomaly_score a \<le> anomaly_score b) (sort_key anomaly_score (rev rs))"
    by (simp add: sorted_wrt_map)
  then have "sorted_wrt (\<lambda>a b. anomaly_score a \<ge> anomaly_score b) (sort_values_stable rs)"
    by (simp add: sort_values_stable_def sorted_wrt_rev)
  then show ?thesis
    by (simp add: sorts_descending_def sort_values_stable_def)
qed

text \<open>What the reducer keeps for a key that occurs in the sorted rows.\<close>

lemma drop_duplicates_sorted:
  fixes ys :: "real long_row list"
  assumes srt: "sorted_wrt (\<lambda>a b. anomaly_score a \<ge> anomaly_score b) ys"
    and r: "r \<in> set ys"
  shows "\<exists>m. filter (\<lambda>r'. subset_key r' = subset_key r) (drop_duplicates ys) = [m] \<and>
             m \<in> set ys \<and> find (\<lambda>r'. subset_key r' = subset_key r) ys = Some m \<and>
             anomaly_score r \<le> anomaly_score m"
proof -
  let ?out = "drop_duplicates ys"
  have "subset_key r \<in> subset_key ` set ?out"
    using r drop_duplicates_from_keys [of "[]" ys] by (simp add: drop_duplicates_def)
  then obtain m where m: "m \<in> set ?out" and km: "subset_key m = subset_key r" by auto
  have "filter (\<lambda>y. subset_key y = subset_key m) ?out = [m]"
    using drop_duplicates_from_distinct [of "[]" ys] m
    by (intro distinct_map_filter_single) (simp_all add: drop_duplicates_def)
  then have single: "filter (\<lambda>r'. subset_key r' = subset_key r) ?out = [m]" by (simp add: km)
  have first: "find (\<lambda>r'. subset_key r' = subset_key r) ys = Some m"
    using drop_duplicates_from_first [of m "[]" ys] m by (simp add: drop_duplicates_def km)
  have in_ys: "m \<in> set ys"
    using m drop_duplicates_from_subset [of "[]" ys] by (auto simp: drop_duplicates_def)
  have "r = m \<or> anomaly_score r \<le> anomaly_score m"
    using find_sorted_wrt_first [OF srt first r] by auto
  then have "anomaly_score r \<le> anomaly_score m" by auto
  with single first in_ys show ?thesis by blast
qed

lemma length_concat_const:
  "(\<And>x. x \<in> set xs \<Longrightarrow> length (f x) = n) \<Longrightarrow> length (concat (map f xs)) = n * length xs"
  by (induction xs) simp_all

lemma length_melt:
  assumes "wf_df df"
  shows "length (melt df) = nrows df * length (columns df)"
  unfolding melt_def
proof (rule length_concat_const)
  fix lc
  assume "lc \<in> set (columns df)"
  then have "length (snd lc) = nrows df" "length (year df) = nrows df"
    using assms by (simp_all add: wf_df_def list_all_iff)
  then show "length (case lc of (v, c) \<Rightarrow>
        map (\<lambda>(e, y, s). \<lparr>row_entity_name = e, row_year = y, variable_id = v, anomaly_score = s\<rparr>)
          (zip (entity_name df) (zip (year df) c))) = nrows df"
    by (cases lc) (simp add: nrows_def)
qed

lemma melt_row:
  assumes wf: "wf_df df" and vc: "(v, c) \<in> set (columns df)" and i: "i < nrows df"
  shows "\<lparr>row_entity_name = entity_name df ! i, row_year = year df ! i, variable_id = v,
           anomaly_score = c ! i\<rparr> \<in> set (melt df)"
proof -
  have len: "length c = nrows df" "length (year df) = nrows df"
    using wf vc by (auto simp: wf_df_def list_all_iff)
  let ?z = "zip (entity_name df) (zip (year df) c)"
  have "?z ! i = (entity_name df ! i, year df ! i, c ! i)" "i < length ?z"
    using i len by (simp_all add: nrows_def)
  then have "(entity_name df ! i, year df ! i, c ! i) \<in> set ?z"
    by (metis nth_mem)
  then show ?thesis
    using vc by (force simp: melt_def)
qed

lemma ex_scores_reduced: "get_long_format_score_df sort_values_stable ex_scores =
   [\<lparr>row_entity_name = ''A'', row_year = 3, variable_id = 1, anomaly_score = 9/10\<rparr>,
    \<lparr>row_entity_name = ''A'', row_year = 1, variable_id = 2, anomaly_score = 0\<rparr>]"
  by (simp add: get_long_format_score_df_def ex_scores_def melt_def fillna_score_def sort_values_stable_def drop_duplicates_def subset_key_def)

lemma subset_key_fillna_score [simp]: "subset_key (fillna_score v r) = subset_key r"
  by (simp add: subset_key_def fillna_score_def)

lemma sorts_descending_set: "sorts_descending sort_values rs \<Longrightarrow> set (sort_values rs) = set rs"
  by (auto simp: sorts_descending_def dest: mset_eq_setD)

lemma reducer_row:
  assumes srt: "sorts_descending sort_values long" and r: "r \<in> set long"
  shows "\<exists>m. filter (\<lambda>r'. subset_key r' = subset_key r) (drop_duplicates (sort_values long)) = [m] \<and>
             m \<in> set long \<and>
             find (\<lambda>r'. subset_key r' = subset_key r) (sort_values long) = Some m \<and>
             anomaly_score r \<le> anomaly_score m"
proof -
  have "sorted_wrt (\<lambda>a b. anomaly_score a \<ge> anomaly_score b) (sort_values long)"
    using srt by (simp add: sorts_descending_def)
  moreover have "r \<in> set (sort_values long)"
    using r sorts_descending_set [OF srt] by simp
  ultimately show ?thesis
    using drop_duplicates_sorted [of "sort_values long" r] sorts_descending_set [OF srt] by simp
qed

text \<open>
  Claim C1. For every wide score table, the reducer produces the long format with one
  row for every (entity, time, indicator), a missing score counted as 0, and keeps of
  it, for every (variable id, entity name) pair, exactly one row, whose score is the
  maximum of the pair; the other time points of the pair are dropped. This holds for
  every sort that pandas may perform, whatever it does with equal scores.
\<close>

theorem get_long_format_score_df_keeps_maximum:
  assumes wf: "wf_df df_score"
    and srt: "sorts_descending sort_values (map (fillna_score 0) (melt df_score))"
  shows "let long = map (fillna_score 0) (melt df_score);
             out = get_long_format_score_df sort_values df_score
         in length long = nrows df_score * length (columns df_score) \<and>
            (\<forall>(v, c) \<in> set (columns df_score). \<forall>i < nrows df_score.
               \<lparr>row_entity_name = entity_name df_score ! i, row_year = year df_score ! i,
                variable_id = v,
                anomaly_score = (case c ! i of None \<Rightarrow> 0 | Some x \<Rightarrow> x)\<rparr> \<in> set long) \<and>
            set out \<subseteq> set long \<and>
            (\<forall>r \<in> set long. \<exists>m.
               filter (\<lambda>r'. subset_key r' = subset_key r) out = [m] \<and>
               anomaly_score r \<le> anomaly_score m)"
proof -
  let ?long = "map (fillna_score 0) (melt df_score)"
  let ?out = "get_long_format_score_df sort_values df_score"
  have out: "?out = drop_duplicates (sort_values ?long)"
    by (simp add: get_long_format_score_df_def)
  have len: "length ?long = nrows df_score * length (columns df_score)"
    using length_melt [OF wf] by simp
  have rows: "\<forall>(v, c) \<in> set (columns df_score). \<forall>i < nrows df_score.
               \<lparr>row_entity_name = entity_name df_score ! i, row_year = year df_score ! i,
                variable_id = v,
                anomaly_score = (case c ! i of None \<Rightarrow> 0 | Some x \<Rightarrow> x)\<rparr> \<in> set ?long"
  proof (intro ballI allI impI, clarify)
    fix v c i
    assume vc: "(v, c) \<in> set (columns df_score)" and i: "i < nrows df_score"
    have "fillna_score 0 \<lparr>row_entity_name = entity_name df_score ! i, row_year = year df_score ! i,
           variable_id = v, anomaly_score = c ! i\<rparr> \<in> set ?long"
      using melt_row [OF wf vc i] by simp
    then show "\<lparr>row_entity_name = entity_name df_score ! i, row_year = year df_score ! i,
                variable_id = v,
                anomaly_score = (case c ! i of None \<Rightarrow> 0 | Some x \<Rightarrow> x)\<rparr> \<in> set ?long"
      by (simp add: fillna_score_def)
  qed
  have sub: "set ?out \<subseteq> set ?long"
    using drop_duplicates_from_subset [of "[]" "sort_values ?long"] sorts_descending_set [OF srt]
    by (simp add: out drop_duplicates_def)
  have keep: "\<forall>r \<in> set ?long. \<exists>m.
               filter (\<lambda>r'. subset_key r' = subset_key r) ?out = [m] \<and>
               anomaly_score r \<le> anomaly_score m"
  proof
    fix r
    assume "r \<in> set ?long"
    from reducer_row [OF srt this] show "\<exists>m.
               filter (\<lambda>r'. subset_key r' = subset_key r) ?out = [m] \<and>
               anomaly_score r \<le> anomaly_score m"
      unfolding out by blast
  qed
  from len rows sub keep show ?thesis
    unfolding Let_def by (intro conjI)
qed

lemma wf_ex_scores: "wf_df ex_scores"
  by (simp add: ex_scores_def wf_df_def nrows_def labels_def)

text \<open>
  On the example table the pair (1, A) with scores 0, 0.2, 0.9, 0.1, 0 keeps its 0.9 row.
\<close>

theorem get_long_format_score_df_keeps_maximum_witness:
  "wf_df ex_scores \<and>
   sorts_descending sort_values_stable (map (fillna_score 0) (melt ex_scores)) \<and>
   get_long_format_score_df sort_values_stable ex_scores =
     [\<lparr>row_entity_name = ''A'', row_year = 3, variable_id = 1, anomaly_score = 9/10\<rparr>,
      \<lparr>row_entity_name = ''A'', row_year = 1, variable_id = 2, anomaly_score = 0\<rparr>] \<and>
   (\<exists>m. filter (\<lambda>r'. subset_key r' = (1, ''A''))
          (get_long_format_score_df sort_values_stable ex_scores) = [m] \<and>
        2/10 \<le> anomaly_score m)"
proof -
  let ?long = "map (fillna_score 0) (melt ex_scores)"
  have h1: "wf_df ex_scores" by (rule wf_ex_scores)
  have h2: "sorts_descending sort_values_stable ?long"
    by (rule sort_values_stable_sorts)
  have every: "\<forall>r \<in> set ?long. \<exists>m.
      filter (\<lambda>r'. subset_key r' = subset_key r)
        (get_long_format_score_df sort_values_stable ex_scores) = [m] \<and>
      anomaly_score r \<le> anomaly_score m"
    using get_long_format_score_df_keeps_maximum [OF h1 h2] unfolding Let_def by blast
  have row: "\<lparr>row_entity_name = ''A'', row_year = 2, variable_id = 1, anomaly_score = 2/10\<rparr>
      \<in> set ?long"
    by (simp add: ex_scores_def melt_def fillna_score_def)
  from bspec [OF every row] have "\<exists>m. filter (\<lambda>r'. subset_key r' = (1, ''A''))
          (get_long_format_score_df sort_values_stable ex_scores) = [m] \<and>
        2/10 \<le> anomaly_score m"
    by (simp add: subset_key_def)
  with h1 h2 ex_scores_reduced show ?thesis by blast
qed

text \<open>
  Claim C8. The output has exactly one record for every (indicator, entity) pair of the
  table: for a pair with a positive score that record has a positive score, and for a
  pair whose scores are all zero it is still there, at score 0. In both cases it is the
  first row of the pair in the sorted order.
\<close>

theorem get_long_format_score_df_one_record_per_pair:
  assumes srt: "sorts_descending sort_values (map (fillna_score 0) (melt df_score))"
  shows "let long = map (fillna_score 0) (melt df_score);
             out = get_long_format_score_df sort_values df_score
         in subset_key ` set out = subset_key ` set long \<and>
            (\<forall>r \<in> set long. \<exists>m.
               filter (\<lambda>r'. subset_key r' = subset_key r) out = [m] \<and>
               find (\<lambda>r'. subset_key r' = subset_key r) (sort_values long) = Some m \<and>
               ((\<forall>r' \<in> set long. subset_key r' = subset_key r \<longrightarrow> anomaly_score r' = 0)
                  \<longrightarrow> anomaly_score m = 0) \<and>
               ((\<exists>r' \<in> set long. subset_key r' = subset_key r \<and> anomaly_score r' > 0)
                  \<longrightarrow> anomaly_score m > 0))"
proof -
  let ?long = "map (fillna_score 0) (melt df_score)"
  let ?out = "get_long_format_score_df sort_values df_score"
  have out: "?out = drop_duplicates (sort_values ?long)"
    by (simp add: get_long_format_score_df_def)
  have keys: "subset_key ` set ?out = subset_key ` set ?long"
    using drop_duplicates_from_keys [of "[]" "sort_values ?long"] sorts_descending_set [OF srt]
    by (simp add: out drop_duplicates_def)
  have each: "\<forall>r \<in> set ?long. \<exists>m.
               filter (\<lambda>r'. subset_key r' = subset_key r) ?out = [m] \<and>
               find (\<lambda>r'. subset_key r' = subset_key r) (sort_values ?long) = Some m \<and>
               ((\<forall>r' \<in> set ?long. subset_key r' = subset_key r \<longrightarrow> anomaly_score r' = 0)
                  \<longrightarrow> anomaly_score m = 0) \<and>
               ((\<exists>r' \<in> set ?long. subset_key r' = subset_key r \<and> anomaly_score r' > 0)
                  \<longrightarrow> anomaly_score m > 0)"
  proof
    fix r
    assume r: "r \<in> set ?long"
    from reducer_row [OF srt r] obtain m where
      single: "filter (\<lambda>r'. subset_key r' = subset_key r) ?out = [m]"
      and m: "m \<in> set ?long"
      and first: "find (\<lambda>r'. subset_key r' = subset_key r) (sort_values ?long) = Some m"
      unfolding out by blast
    have km: "subset_key m = subset_key r"
      using first by (auto simp: find_Some_iff)
    have zero: "(\<forall>r' \<in> set ?long. subset_key r' = subset_key r \<longrightarrow> anomaly_score r' = 0)
                  \<longrightarrow> anomaly_score m = 0"
      using m km by blast
    have pos: "(\<exists>r' \<in> set ?long. subset_key r' = subset_key r \<and> anomaly_score r' > 0)
                  \<longrightarrow> anomaly_score m > 0"
    proof
      assume "\<exists>r' \<in> set ?long. subset_key r' = subset_key r \<and> anomaly_score r' > 0"
      then obtain r' where r': "r' \<in> set ?long" "subset_key r' = subset_key r" "anomaly_score r' > 0"
        by blast
      from reducer_row [OF srt r'(1)] obtain m' where
        "filter (\<lambda>x. subset_key x = subset_key r') ?out = [m']"
        "anomaly_score r' \<le> anomaly_score m'"
        unfolding out by blast
      with single r'(2) have "anomaly_score r' \<le> anomaly_score m" by simp
      with r'(3) show "anomaly_score m > 0" by simp
    qed
    from single first zero pos show "\<exists>m.
               filter (\<lambda>r'. subset_key r' = subset_key r) ?out = [m] \<and>
               find (\<lambda>r'. subset_key r' = subset_key r) (sort_values ?long) = Some m \<and>
               ((\<forall>r' \<in> set ?long. subset_key r' = subset_key r \<longrightarrow> anomaly_score r' = 0)
                  \<longrightarrow> anomaly_score m = 0) \<and>
               ((\<exists>r' \<in> set ?long. subset_key r' = subset_key r \<and> anomaly_score r' > 0)
                  \<longrightarrow> anomaly_score m > 0)"
      by blast
  qed
  from keys each show ?thesis
    unfolding Let_def by (intro conjI)
qed

theorem get_long_format_score_df_one_record_per_pair_witness:
  "sorts_descending sort_values_stable (map (fillna_score 0) (melt ex_scores)) \<and>
   (\<exists>m. filter (\<lambda>r'. subset_key r' = (2, ''A''))
          (get_long_format_score_df sort_values_stable ex_scores) = [m] \<and>
        find (\<lambda>r'. subset_key r' = (2, ''A''))
          (sort_values_stable (map (fillna_score 0) (melt ex_scores))) = Some m \<and>
        anomaly_score m = 0)"
proof -
  let ?long = "map (fillna_score 0) (melt ex_scores)"
  let ?r = "\<lparr>row_entity_name = ''A'', row_year = 3, variable_id = 2, anomaly_score = 0::real\<rparr>"
  have h2: "sorts_descending sort_values_stable ?long"
    by (rule sort_values_stable_sorts)
  have row: "?r \<in> set ?long"
    by (simp add: ex_scores_def melt_def fillna_score_def)
  have zero: "\<forall>r' \<in> set ?long. subset_key r' = subset_key ?r \<longrightarrow> anomaly_score r' = 0"
    by (simp add: ex_scores_def melt_def fillna_score_def subset_key_def)
  have "\<forall>r \<in> set ?long. \<exists>m.
      filter (\<lambda>r'. subset_key r' = subset_key r)
        (get_long_format_score_df sort_values_stable ex_scores) = [m] \<and>
      find (\<lambda>r'. subset_key r' = subset_key r) (sort_values_stable ?long) = Some m \<and>
      ((\<forall>r' \<in> set ?long. subset_key r' = subset_key r \<longrightarrow> anomaly_score r' = 0)
         \<longrightarrow> anomaly_score m = 0)"
    using get_long_format_score_df_one_record_per_pair [OF h2] unfolding Let_def by blast
  from bspec [OF this row] zero have "\<exists>m.
      filter (\<lambda>r'. subset_key r' = subset_key ?r)
        (get_long_format_score_df sort_values_stable ex_scores) = [m] \<and>
      find (\<lambda>r'. subset_key r' = subset_key ?r) (sort_values_stable ?long) = Some m \<and>
      anomaly_score m = 0"
    by blast
  then have "\<exists>m. filter (\<lambda>r'. subset_key r' = (2, ''A''))
          (get_long_format_score_df sort_values_stable ex_scores) = [m] \<and>
        find (\<lambda>r'. subset_key r' = (2, ''A'')) (sort_values_stable ?long) = Some m \<and>
        anomaly_score m = 0"
    by (simp add: subset_key_def)
  with h2 show ?thesis by blast
qed

section \<open>Properties of the epsilon estimator\<close>

lemma filter_positive_abs:
  "filter (\<lambda>x. x > 0) (map abs xs) = map abs (filter (\<lambda>x. x \<noteq> 0) (xs :: real list))"
  by (induction xs) auto

lemma quantile_nonempty:
  "xs \<noteq> [] \<Longrightarrow> \<exists>v. quantile xs q = Some v"
  by (simp add: quantile_def Let_def)


lemma estimate_bard_epsilon_eq:
  "estimate_bard_epsilon series =
     (let vals = map abs (filter (\<lambda>x. x \<noteq> 0) (dropna series))
      in case (quantile vals (95 / 100), quantile vals (5 / 100)) of
           (Some q95, Some q05) \<Rightarrow> Some ((q95 - q05) / 10)
         | _ \<Rightarrow> None)"
  by (simp add: estimate_bard_epsilon_def filter_positive_abs)

text \<open>
  Claim C7. For a series with at least two non-zero values among its non-null entries,
  the estimator returns (q95 - q05) / 10, where q95 and q05 are the 95th and the 5th
  percentile of the absolute values of the non-null, non-zero entries.
\<close>

theorem estimate_bard_epsilon_percentile_range:
  assumes "2 \<le> length (filter (\<lambda>x. x \<noteq> 0) (dropna series))"
  shows "\<exists>q95 q05.
           quantile (map abs (filter (\<lambda>x. x \<noteq> 0) (dropna series))) (95 / 100) = Some q95 \<and>
           quantile (map abs (filter (\<lambda>x. x \<noteq> 0) (dropna series))) (5 / 100) = Some q05 \<and>
           estimate_bard_epsilon series = Some ((q95 - q05) / 10)"
proof -
  let ?vals = "map abs (filter (\<lambda>x. x \<noteq> 0) (dropna series))"
  have "?vals \<noteq> []" using assms by auto
  then obtain q95 q05 where
    q: "quantile ?vals (95 / 100) = Some q95" "quantile ?vals (5 / 100) = Some q05"
    using quantile_nonempty by blast
  then have "estimate_bard_epsilon series = Some ((q95 - q05) / 10)"
    by (simp add: estimate_bard_epsilon_eq)
  with q show ?thesis by blast
qed

lemma ex_q95: "quantile [10, 10, 10, 1000, 7] (95 / 100) = Some 802"
  by (simp add: quantile_def Let_def)
lemma ex_q05: "quantile [10, 10, 10, 1000, 7] (5 / 100) = Some (38 / 5)"
  by (simp add: quantile_def Let_def)

theorem estimate_bard_epsilon_percentile_range_witness:
  "2 \<le> length (filter (\<lambda>x. x \<noteq> 0) (dropna ex_series)) \<and>
   quantile (map abs (filter (\<lambda>x. x \<noteq> 0) (dropna ex_series))) (95 / 100) = Some 802 \<and>
   quantile (map abs (filter (\<lambda>x. x \<noteq> 0) (dropna ex_series))) (5 / 100) = Some (38 / 5) \<and>
   estimate_bard_epsilon ex_series = Some (1986 / 25)"
proof -
  have h: "2 \<le> length (filter (\<lambda>x. x \<noteq> 0) (dropna ex_series))"
    by (simp add: ex_series_def)
  have vals: "map abs (filter (\<lambda>x. x \<noteq> 0) (dropna ex_series)) = [10, 10, 10, 1000, 7]"
    by (simp add: ex_series_def)
  have q: "quantile (map abs (filter (\<lambda>x. x \<noteq> 0) (dropna ex_series))) (95 / 100) = Some 802"
    "quantile (map abs (filter (\<lambda>x. x \<noteq> 0) (dropna ex_series))) (5 / 100) = Some (38 / 5)"
    unfolding vals by (rule ex_q95, rule ex_q05)
  from estimate_bard_epsilon_percentile_range [OF h]
  have "\<exists>q95 q05. Some 802 = Some q95 \<and> Some (38 / 5) = Some q05 \<and>
          estimate_bard_epsilon ex_series = Some ((q95 - q05) / 10)"
    unfolding q .
  then have "estimate_bard_epsilon ex_series = Some (1986 / 25)"
    by auto
  with h q show ?thesis by blast
qed




section \<open>Properties of frames and series\<close>

subsection \<open>Frames\<close>

lemma map_of_relabel:
  "map_of (map (\<lambda>(l, c). if P l then (l, f c) else (l, c)) cols) w =
     (if P w then map_option f (map_of cols w) else map_of cols w)"
  by (induction cols) auto

lemma map_of_labels: "v \<in> set (labels df) \<Longrightarrow> \<exists>c. map_of (columns df) v = Some c"
  by (metis labels_def map_of_eq_None_iff not_None_eq set_map)

lemma set_column_lookup:
  "map_of (columns (set_column df v c)) w = (if w = v then Some c else map_of (columns df) w)"
proof (cases "v \<in> set (labels df)")
  case True
  then obtain old where "map_of (columns df) v = Some old"
    using map_of_labels by blast
  then show ?thesis
    using True map_of_relabel [of "\<lambda>l. l = v" "\<lambda>_. c" "columns df" w]
    by (simp add: set_column_def)
next
  case False
  then have "map_of (columns df) v = None"
    by (simp add: labels_def map_of_eq_None_iff)
  with False show ?thesis
    by (auto simp: set_column_def map_add_def split: option.splits)
qed

lemma set_column_index [simp]:
  "entity_name (set_column df v c) = entity_name df" "year (set_column df v c) = year df"
  by (simp_all add: set_column_def)

lemma set_column_cells:
  assumes "\<forall>lc \<in> set (columns df). Q (snd lc)" and "Q c"
  shows "\<forall>lc \<in> set (columns (set_column df v c)). Q (snd lc)"
  using assms by (auto simp: set_column_def)

lemma loc_set_columns_lookup:
  "map_of (columns (loc_set_columns df sel vs x)) w =
     (if w \<in> set vs then map_option (mask_set sel x) (map_of (columns df) w)
      else map_of (columns df) w)"
  using map_of_relabel [of "\<lambda>l. l \<in> set vs" "mask_set sel x" "columns df" w]
  by (simp add: loc_set_columns_def)

lemma loc_set_columns_index [simp]:
  "entity_name (loc_set_columns df sel vs x) = entity_name df"
  "year (loc_set_columns df sel vs x) = year df"
  by (simp_all add: loc_set_columns_def)

lemma get_column_Inr: "get_column df v = Inr c \<longleftrightarrow> map_of (columns df) v = Some c"
  by (simp add: get_column_def split: option.splits)

lemma get_column_labels: "v \<in> set (labels df) \<Longrightarrow> \<exists>c. get_column df v = Inr c"
  using map_of_labels by (simp add: get_column_Inr)

lemma get_column_length:
  "wf_df df \<Longrightarrow> get_column df v = Inr c \<Longrightarrow> length c = nrows df"
  by (auto simp: get_column_Inr wf_df_def list_all_iff dest!: map_of_SomeD)

subsection \<open>Series\<close>

lemma length_mask_set [simp]: "length (mask_set sel x c) = min (length sel) (length c)"
  by (simp add: mask_set_def)

lemma nth_mask_set:
  "i < length sel \<Longrightarrow> i < length c \<Longrightarrow>
   mask_set sel x c ! i = (if sel ! i then Some x else c ! i)"
  by (simp add: mask_set_def)

lemma mask_set_nonnull: "None \<notin> set c \<Longrightarrow> None \<notin> set (mask_set sel x c)"
  by (auto simp: mask_set_def split: if_splits dest: set_zip_rightD)

lemma length_shift [simp]: "length (shift cs) = length cs"
  by (simp add: shift_def)

lemma nth_shift: "i < length cs \<Longrightarrow> shift cs ! i = (if i = 0 then None else cs ! (i - 1))"
  by (cases i) (simp_all add: shift_def)

lemma length_fillna [simp]: "length (fillna v cs) = length cs"
  by (simp add: fillna_def)

lemma nth_fillna:
  "i < length cs \<Longrightarrow> fillna v cs ! i = (case cs ! i of None \<Rightarrow> Some v | Some x \<Rightarrow> Some x)"
  by (simp add: fillna_def)

lemma fillna_nonnull: "None \<notin> set (fillna v cs)"
  by (auto simp: fillna_def split: option.splits)

lemma length_bard_series [simp]:
  "length (bard_series bard a b eps) = min (length a) (length b)"
  by (simp add: bard_series_def)

lemma nth_bard_series:
  "i < length a \<Longrightarrow> i < length b \<Longrightarrow> bard_series bard a b eps ! i = bard (a ! i) (b ! i) eps"
  by (simp add: bard_series_def)

lemma length_entity_changes [simp]: "length (entity_changes names) = length names"
  by (simp add: entity_changes_def)

lemma nth_entity_changes:
  "i < length names \<Longrightarrow>
   entity_changes names ! i \<longleftrightarrow> i = 0 \<or> names ! (i - 1) \<noteq> names ! i"
  by (auto simp: entity_changes_def nth_shift)

lemma length_affected_rows [simp]:
  "length (affected_rows old new) = min (length old) (length new)"
  by (simp add: affected_rows_def)


subsection \<open>The frame of zeros\<close>

lemma zeros_like_select_Inr:
  "zeros_like_select df variable_ids = Inr z \<longleftrightarrow>
     set variable_ids \<subseteq> set (labels df) \<and>
     z = \<lparr>entity_name = entity_name df, year = year df,
          columns = map (\<lambda>v. (v, replicate (nrows df) (Some 0))) variable_ids\<rparr>"
  by (auto simp: zeros_like_select_def Let_def filter_empty_conv)


section \<open>Properties of the time-change detector\<close>

subsection \<open>The sortedness check\<close>

lemma index_is_sorted_iff:
  assumes "length (year df) = nrows df"
  shows "index_is_sorted df \<longleftrightarrow> sorted (zip (entity_name df) (year df))"
proof -
  let ?ks = "zip (entity_name df) (year df)"
  let ?zs = "zip [0 ..< nrows df] ?ks"
  have len: "length ?ks = nrows df"
    using assms by (simp add: nrows_def)
  have fst_zs: "map fst ?zs = [0 ..< nrows df]" and snd_zs: "map snd ?zs = ?ks"
    using len by simp_all
  show ?thesis
  proof
    assume "index_is_sorted df"
    then have eq: "map fst (sort_key snd ?zs) = map fst ?zs"
      by (simp add: index_is_sorted_def sort_values_index_def fst_zs)
    have "distinct (map fst ?zs)"
      by (simp add: fst_zs)
    then have "inj_on fst (set ?zs)"
      by (simp add: distinct_map)
    then have "inj_on fst (set (sort_key snd ?zs) \<union> set ?zs)"
      by simp
    with eq have "sort_key snd ?zs = ?zs"
      by (simp add: inj_on_map_eq_map)
    moreover have "sorted (map snd (sort_key snd ?zs))"
      by (rule sorted_sort_key)
    ultimately show "sorted ?ks"
      by (simp add: snd_zs)
  next
    assume "sorted ?ks"
    then have "sorted (map snd ?zs)"
      by (simp add: snd_zs)
    then have "sort_key snd ?zs = ?zs"
      by (rule sort_key_id_if_sorted)
    then show "index_is_sorted df"
      by (simp add: index_is_sorted_def sort_values_index_def fst_zs)
  qed
qed



subsection \<open>The loop over the indicators\<close>


lemma time_change_loop_index:
  "time_change_loop bard df vs acc = Inr out \<Longrightarrow>
   entity_name out = entity_name acc \<and> year out = year acc"
proof (induction vs arbitrary: acc)
  case Nil
  then show ?case by simp
next
  case (Cons v vs)
  then show ?case
    by (cases "get_column df v") (auto simp: Let_def)
qed

lemma time_change_loop_nonnull:
  "time_change_loop bard df vs acc = Inr out \<Longrightarrow>
   \<forall>lc \<in> set (columns acc). None \<notin> set (snd lc) \<Longrightarrow>
   \<forall>lc \<in> set (columns out). None \<notin> set (snd lc)"
proof (induction vs arbitrary: acc)
  case Nil
  then show ?case by simp
next
  case (Cons v vs)
  show ?case
  proof (cases "get_column df v")
    case (Inl e)
    with Cons.prems show ?thesis by simp
  next
    case (Inr s)
    let ?b = "fillna 0 (bard_series bard s (shift s) (estimate_bard_epsilon s))"
    have "\<forall>lc \<in> set (columns (set_column acc v ?b)). None \<notin> set (snd lc)"
      using Cons.prems(2) fillna_nonnull by (rule set_column_cells)
    moreover have "time_change_loop bard df vs (set_column acc v ?b) = Inr out"
      using Cons.prems(1) Inr by (simp add: Let_def)
    ultimately show ?thesis
      using Cons.IH by blast
  qed
qed

lemma time_change_loop_lookup:
  "time_change_loop bard df vs acc = Inr out \<Longrightarrow>
   get_column df w = Inr s \<Longrightarrow>
   map_of (columns out) w =
     (if w \<in> set vs
      then Some (fillna 0 (bard_series bard s (shift s) (estimate_bard_epsilon s)))
      else map_of (columns acc) w)"
proof (induction vs arbitrary: acc)
  case Nil
  then show ?case by simp
next
  case (Cons v vs)
  show ?case
  proof (cases "get_column df v")
    case (Inl e)
    with Cons.prems show ?thesis by simp
  next
    case (Inr t)
    let ?b = "fillna 0 (bard_series bard t (shift t) (estimate_bard_epsilon t))"
    have step: "time_change_loop bard df vs (set_column acc v ?b) = Inr out"
      using Cons.prems(1) Inr by (simp add: Let_def)
    have same: "w = v \<Longrightarrow> t = s"
      using Inr Cons.prems(2) by simp
    show ?thesis
      using Cons.IH [OF step Cons.prems(2)] same
      by (auto simp: set_column_lookup)
  qed
qed

subsection \<open>The scores of the time-change detector\<close>

lemma time_change_result:
  assumes "AnomalyTimeChange_get_score_df bard df variable_ids variable_mapping = Inr out"
  obtains loop where
    "set variable_ids \<subseteq> set (labels df)"
    "index_is_sorted df"
    "time_change_loop bard df variable_ids
       \<lparr>entity_name = entity_name df, year = year df,
        columns = map (\<lambda>v. (v, replicate (nrows df) (Some 0))) variable_ids\<rparr> = Inr loop"
    "out = loc_set_columns loop (entity_changes (entity_name df)) variable_ids 0"
proof -
  from assms obtain z where z: "zeros_like_select df variable_ids = Inr z"
    by (auto simp: AnomalyTimeChange_get_score_df_def split: sum.splits)
  with assms have srt: "index_is_sorted df"
    by (auto simp: AnomalyTimeChange_get_score_df_def split: sum.splits if_splits)
  with assms z obtain loop where
    loop: "time_change_loop bard df variable_ids z = Inr loop"
    and out: "out = loc_set_columns loop (entity_changes (entity_name loop)) variable_ids 0"
    by (auto simp: AnomalyTimeChange_get_score_df_def split: sum.splits)
  from z have zs: "set variable_ids \<subseteq> set (labels df)"
    "z = \<lparr>entity_name = entity_name df, year = year df,
          columns = map (\<lambda>v. (v, replicate (nrows df) (Some 0))) variable_ids\<rparr>"
    by (simp_all add: zeros_like_select_Inr)
  have "entity_name loop = entity_name df"
    using time_change_loop_index [OF loop] zs(2) by simp
  with that zs srt loop out show thesis by simp
qed

lemma time_change_cell:
  assumes wf: "wf_df df"
    and res: "AnomalyTimeChange_get_score_df bard df variable_ids variable_mapping = Inr out"
    and v: "v \<in> set variable_ids"
  shows "\<exists>s col. get_column df v = Inr s \<and> get_column out v = Inr col \<and>
           length col = nrows df \<and>
           (\<forall>i < nrows df. col ! i =
              (if i = 0 \<or> entity_name df ! (i - 1) \<noteq> entity_name df ! i then Some 0
               else case bard (s ! i) (shift s ! i) (estimate_bard_epsilon s) of
                      None \<Rightarrow> Some 0 | Some x \<Rightarrow> Some x))"
proof -
  from res obtain loop where
    ids: "set variable_ids \<subseteq> set (labels df)"
    and loop: "time_change_loop bard df variable_ids
       \<lparr>entity_name = entity_name df, year = year df,
        columns = map (\<lambda>v. (v, replicate (nrows df) (Some 0))) variable_ids\<rparr> = Inr loop"
    and out: "out = loc_set_columns loop (entity_changes (entity_name df)) variable_ids 0"
    by (rule time_change_result)
  from ids v obtain s where s: "get_column df v = Inr s"
    using get_column_labels [of v df] by auto
  have len: "length s = nrows df"
    using wf s by (rule get_column_length)
  let ?b = "fillna 0 (bard_series bard s (shift s) (estimate_bard_epsilon s))"
  let ?sel = "entity_changes (entity_name df)"
  let ?col = "mask_set ?sel 0 ?b"
  have "map_of (columns loop) v = Some ?b"
    using time_change_loop_lookup [OF loop s] v by simp
  then have col: "get_column out v = Inr ?col"
    using v by (simp add: out get_column_Inr loc_set_columns_lookup)
  have lcol: "length ?col = nrows df"
    using len by (simp add: nrows_def)
  have cells: "\<forall>i < nrows df. ?col ! i =
              (if i = 0 \<or> entity_name df ! (i - 1) \<noteq> entity_name df ! i then Some 0
               else case bard (s ! i) (shift s ! i) (estimate_bard_epsilon s) of
                      None \<Rightarrow> Some 0 | Some x \<Rightarrow> Some x)"
  proof (intro allI impI)
    fix i
    assume i: "i < nrows df"
    then have "?col ! i = (if ?sel ! i then Some 0 else ?b ! i)"
      using len by (simp add: nth_mask_set nrows_def)
    moreover have "?sel ! i \<longleftrightarrow> i = 0 \<or> entity_name df ! (i - 1) \<noteq> entity_name df ! i"
      using i by (simp add: nth_entity_changes nrows_def)
    moreover have "?b ! i = (case bard (s ! i) (shift s ! i) (estimate_bard_epsilon s) of
                      None \<Rightarrow> Some 0 | Some x \<Rightarrow> Some x)"
      using i len by (simp add: nth_fillna nth_bard_series)
    ultimately show "?col ! i =
              (if i = 0 \<or> entity_name df ! (i - 1) \<noteq> entity_name df ! i then Some 0
               else case bard (s ! i) (shift s ! i) (estimate_bard_epsilon s) of
                      None \<Rightarrow> Some 0 | Some x \<Rightarrow> Some x)"
      by simp
  qed
  from s col lcol cells show ?thesis by blast
qed


lemma wf_ex_time_null: "wf_df ex_time_null"
  by (simp add: ex_time_null_def wf_df_def nrows_def labels_def)






lemma ex_time_null_eps:
  "estimate_bard_epsilon [Some 10, None, Some 12, Some 1000, Some 7] = Some (16887 / 200)"
  by (simp add: estimate_bard_epsilon_def quantile_def Let_def)

lemma ex_time_null_sorted: "index_is_sorted ex_time_null"
  by (simp add: index_is_sorted_iff ex_time_null_def nrows_def)

lemma ex_time_null_scores:
  "AnomalyTimeChange_get_score_df bard_ratio ex_time_null [1] [] =
     Inr \<lparr>entity_name = [''A'', ''A'', ''A'', ''A'', ''B''], year = [1, 2, 3, 4, 1],
          columns = [(1, [Some 0, Some 0, Some 0, Some (197600 / 214487), Some 0])]\<rparr>"
  unfolding AnomalyTimeChange_get_score_df_def
  by (simp add: ex_time_null_def zeros_like_select_def labels_def nrows_def get_column_def
        set_column_def Let_def ex_time_null_eps ex_time_null_sorted [unfolded ex_time_null_def]
        loc_set_columns_def entity_changes_def shift_def mask_set_def
        bard_series_def fillna_def bard_ratio_def)

lemma bard_ratio_propagates_null: "propagates_null bard_ratio"
  by (auto simp: propagates_null_def bard_ratio_def split: option.splits)




text \<open>The message of the error states the requirement.\<close>

lemma sortedness_error_names_requirement:
  "\<exists>pre post. sortedness_error =
     pre @ ''assumes the data is sorted by entity_name and year'' @ post"
  by (rule exI [of _ "''The function that detects abrupt time changes ''"],
      rule exI [of _ "''. But this is not the case. Either ensure the data is sorted, or fix the function.''"])
    (simp add: sortedness_error_def)


text \<open>
  Claim C10. No score cell of the returned table is null. A null BARD result becomes 0
  at every row, so also at a row where only one of the two adjacent values is null
  (BARD being null there, as the specification asks of it).
\<close>

theorem time_change_scores_not_null:
  assumes wf: "wf_df df"
    and res: "AnomalyTimeChange_get_score_df bard df variable_ids variable_mapping = Inr out"
  shows "(\<forall>lc \<in> set (columns out). None \<notin> set (snd lc)) \<and>
         (\<forall>v \<in> set variable_ids. \<exists>s col.
            get_column df v = Inr s \<and> get_column out v = Inr col \<and> length col = nrows df \<and>
            (\<forall>i < nrows df. col ! i \<noteq> None) \<and>
            (\<forall>i < nrows df.
               bard (s ! i) (shift s ! i) (estimate_bard_epsilon s) = None \<longrightarrow> col ! i = Some 0) \<and>
            (propagates_null bard \<longrightarrow>
               (\<forall>i < nrows df. s ! i = None \<or> shift s ! i = None \<longrightarrow> col ! i = Some 0)))"
proof -
  from res obtain loop where
    loop: "time_change_loop bard df variable_ids
       \<lparr>entity_name = entity_name df, year = year df,
        columns = map (\<lambda>v. (v, replicate (nrows df) (Some 0))) variable_ids\<rparr> = Inr loop"
    and out: "out = loc_set_columns loop (entity_changes (entity_name df)) variable_ids 0"
    by (rule time_change_result)
  have "\<forall>lc \<in> set (columns loop). None \<notin> set (snd lc)"
    using loop by (rule time_change_loop_nonnull) auto
  then have all: "\<forall>lc \<in> set (columns out). None \<notin> set (snd lc)"
    using mask_set_nonnull [of _ "entity_changes (entity_name df)" 0]
    by (fastforce simp: out loc_set_columns_def split: if_splits)
  have each: "\<forall>v \<in> set variable_ids. \<exists>s col.
            get_column df v = Inr s \<and> get_column out v = Inr col \<and> length col = nrows df \<and>
            (\<forall>i < nrows df. col ! i \<noteq> None) \<and>
            (\<forall>i < nrows df.
               bard (s ! i) (shift s ! i) (estimate_bard_epsilon s) = None \<longrightarrow> col ! i = Some 0) \<and>
            (propagates_null bard \<longrightarrow>
               (\<forall>i < nrows df. s ! i = None \<or> shift s ! i = None \<longrightarrow> col ! i = Some 0))"
  proof
    fix v
    assume "v \<in> set variable_ids"
    from time_change_cell [OF wf res this] obtain s col where
      col: "get_column df v = Inr s" "get_column out v = Inr col" "length col = nrows df"
      and cells: "\<forall>i < nrows df. col ! i =
              (if i = 0 \<or> entity_name df ! (i - 1) \<noteq> entity_name df ! i then Some 0
               else case bard (s ! i) (shift s ! i) (estimate_bard_epsilon s) of
                      None \<Rightarrow> Some 0 | Some x \<Rightarrow> Some x)"
      by blast
    have nonnull: "\<forall>i < nrows df. col ! i \<noteq> None"
      using cells by (simp split: option.splits)
    have filled: "\<forall>i < nrows df.
               bard (s ! i) (shift s ! i) (estimate_bard_epsilon s) = None \<longrightarrow> col ! i = Some 0"
      using cells by simp
    have "propagates_null bard \<longrightarrow>
               (\<forall>i < nrows df. s ! i = None \<or> shift s ! i = None \<longrightarrow> col ! i = Some 0)"
      using filled by (auto simp: propagates_null_def)
    with col nonnull filled show "\<exists>s col.
            get_column df v = Inr s \<and> get_column out v = Inr col \<and> length col = nrows df \<and>
            (\<forall>i < nrows df. col ! i \<noteq> None) \<and>
            (\<forall>i < nrows df.
               bard (s ! i) (shift s ! i) (estimate_bard_epsilon s) = None \<longrightarrow> col ! i = Some 0) \<and>
            (propagates_null bard \<longrightarrow>
               (\<forall>i < nrows df. s ! i = None \<or> shift s ! i = None \<longrightarrow> col ! i = Some 0))"
      by blast
  qed
  from all each show ?thesis by (intro conjI)
qed

text \<open>
  A series with a null at time 2 of entity A: the rows at times 2 and 3, each with one
  null neighbour, score 0, not null.
\<close>

theorem time_change_scores_not_null_witness:
  "wf_df ex_time_null \<and>
   AnomalyTimeChange_get_score_df bard_ratio ex_time_null [1] [] =
     Inr \<lparr>entity_name = [''A'', ''A'', ''A'', ''A'', ''B''], year = [1, 2, 3, 4, 1],
          columns = [(1, [Some 0, Some 0, Some 0, Some (197600 / 214487), Some 0])]\<rparr> \<and>
   propagates_null bard_ratio \<and>
   (\<exists>s col. get_column ex_time_null 1 = Inr s \<and>
      get_column
        \<lparr>entity_name = [''A'', ''A'', ''A'', ''A'', ''B''], year = [1, 2, 3, 4, 1],
         columns = [(1, [Some 0, Some 0, Some 0, Some (197600 / 214487), Some 0])]\<rparr> 1
        = Inr col \<and>
      s ! 1 = None \<and> s ! 2 \<noteq> None \<and> shift s ! 2 = None \<and>
      col ! 1 = Some 0 \<and> col ! 2 = Some 0)"
proof -
  let ?out = "\<lparr>entity_name = [''A'', ''A'', ''A'', ''A'', ''B''], year = [1, 2, 3, 4, 1],
          columns = [(1, [Some 0, Some 0, Some 0, Some (197600 / 214487 :: real), Some 0])]\<rparr>"
  have "\<forall>v \<in> set [1]. \<exists>s col.
            get_column ex_time_null v = Inr s \<and> get_column ?out v = Inr col \<and>
            (propagates_null bard_ratio \<longrightarrow>
               (\<forall>i < nrows ex_time_null. s ! i = None \<or> shift s ! i = None \<longrightarrow> col ! i = Some 0))"
    using time_change_scores_not_null [OF wf_ex_time_null ex_time_null_scores] by blast
  then obtain s col where
    s: "get_column ex_time_null 1 = Inr s" and col: "get_column ?out 1 = Inr col"
    and zero: "\<forall>i < nrows ex_time_null. s ! i = None \<or> shift s ! i = None \<longrightarrow> col ! i = Some 0"
    using bard_ratio_propagates_null by auto
  have s_eq: "s = [Some 10, None, Some 12, Some 1000, Some 7]"
    using s by (simp add: ex_time_null_def get_column_def)
  have nulls: "s ! 1 = None" "s ! 2 \<noteq> None" "shift s ! 2 = None"
    by (simp_all add: s_eq shift_def)
  have n: "nrows ex_time_null = 5"
    by (simp add: ex_time_null_def nrows_def)
  have "col ! 1 = Some 0" "col ! 2 = Some 0"
    using zero nulls by (simp_all add: n)
  with wf_ex_time_null ex_time_null_scores bard_ratio_propagates_null s col nulls
  show ?thesis by blast
qed

section \<open>Properties of the upgrade-change detector\<close>



















section \<open>Properties of the missing-on-upgrade detector\<close>










end
